theory Spec2Isabelle
  imports Complex_Main "HOL-Library.AList" "HOL-Library.Multiset"
begin

section \<open>Card model\<close>

text \<open>
  The trainer's cards (\<^verbatim>\<open>poker-trainer.tsx\<close>): \<^verbatim>\<open>RANKS\<close> and \<^verbatim>\<open>SUITS\<close> are
  constant tuples, \<^verbatim>\<open>Rank\<close> and \<^verbatim>\<open>Suit\<close> their element types, and a
  \<^verbatim>\<open>PlayingCard\<close> is an object with the fields \<^verbatim>\<open>rank\<close>, \<^verbatim>\<open>suit\<close> and \<^verbatim>\<open>id\<close>.
\<close>

datatype Rank = R2 | R3 | R4 | R5 | R6 | R7 | R8 | R9 | RT | RJ | RQ | RK | RA

datatype Suit = Spades | Hearts | Diamonds | Clubs

definition RANKS :: "Rank list" where
  "RANKS = [R2, R3, R4, R5, R6, R7, R8, R9, RT, RJ, RQ, RK, RA]"

definition SUITS :: "Suit list" where
  "SUITS = [Spades, Hearts, Diamonds, Clubs]"

record PlayingCard =
  rank :: Rank
  suit :: Suit
  id :: string

datatype Mode = HAND | OUTS | DECISION

datatype Decision = Fold | Call | Raise

text \<open>The text of a rank and of a suit, as the template string of \<^verbatim>\<open>makeDeck\<close> prints
  them; the four suit glyphs are written as their UTF-8 bytes.\<close>

fun rank_text :: "Rank \<Rightarrow> string" where
  "rank_text R2 = ''2''" | "rank_text R3 = ''3''" | "rank_text R4 = ''4''"
| "rank_text R5 = ''5''" | "rank_text R6 = ''6''" | "rank_text R7 = ''7''"
| "rank_text R8 = ''8''" | "rank_text R9 = ''9''" | "rank_text RT = ''T''"
| "rank_text RJ = ''J''" | "rank_text RQ = ''Q''" | "rank_text RK = ''K''"
| "rank_text RA = ''A''"

fun suit_text :: "Suit \<Rightarrow> string" where
  "suit_text Spades = [CHR 0xE2, CHR 0x99, CHR 0xA0]"
| "suit_text Hearts = [CHR 0xE2, CHR 0x99, CHR 0xA5]"
| "suit_text Diamonds = [CHR 0xE2, CHR 0x99, CHR 0xA6]"
| "suit_text Clubs = [CHR 0xE2, CHR 0x99, CHR 0xA3]"

text \<open>The object literal \<^verbatim>\<open>{ rank, suit, id: `${rank}${suit}` }\<close>.\<close>

definition mkCard :: "Rank \<Rightarrow> Suit \<Rightarrow> PlayingCard" where
  "mkCard r s = \<lparr>rank = r, suit = s, id = rank_text r @ suit_text s\<rparr>"

text \<open>\<^verbatim>\<open>makeDeck\<close>: suits in the outer loop, ranks in the inner one.\<close>

definition makeDeck :: "PlayingCard list" where
  "makeDeck = concat (map (\<lambda>s. map (\<lambda>r. mkCard r s) RANKS) SUITS)"

text \<open>\<^verbatim>\<open>Array.prototype.indexOf\<close>: the first index of the element, \<open>-1\<close> when absent.\<close>

fun indexOf :: "'a list \<Rightarrow> 'a \<Rightarrow> int" where
  "indexOf [] x = -1"
| "indexOf (y # ys) x =
     (if y = x then 0 else (let i = indexOf ys x in if i < 0 then -1 else i + 1))"

definition rankValue :: "Rank \<Rightarrow> int" where
  "rankValue r = indexOf RANKS r"

section \<open>Numbers\<close>

text \<open>
  A JavaScript \<^verbatim>\<open>number\<close> that comes out of a division is a finite value, one of the two
  infinities or NaN. Finite values are modelled as exact reals (the rounding of double
  arithmetic and the sign of zero are not modelled).
\<close>

datatype number = Num real | PosInfinity | NegInfinity | NaN

text \<open>\<^verbatim>\<open>x / y\<close> on finite operands.\<close>

definition js_div :: "real \<Rightarrow> real \<Rightarrow> number" where
  "js_div x y =
     (if y \<noteq> 0 then Num (x / y)
      else if x > 0 then PosInfinity
      else if x < 0 then NegInfinity
      else NaN)"

text \<open>\<^verbatim>\<open>n * c\<close> and \<^verbatim>\<open>n / c\<close> for a finite constant \<open>c > 0\<close>.\<close>

fun times_const :: "number \<Rightarrow> real \<Rightarrow> number" where
  "times_const (Num x) c = Num (x * c)"
| "times_const n c = n"

fun div_const :: "number \<Rightarrow> real \<Rightarrow> number" where
  "div_const (Num x) c = Num (x / c)"
| "div_const n c = n"

text \<open>\<^verbatim>\<open>Math.round\<close>: the nearest integer, a tie going up.\<close>

fun Math_round :: "number \<Rightarrow> number" where
  "Math_round (Num x) = Num (of_int \<lfloor>x + 1 / 2\<rfloor>)"
| "Math_round n = n"

text \<open>\<^verbatim>\<open>x >= n\<close> for a finite \<open>x\<close>: every comparison with NaN is false.\<close>

fun ge_number :: "real \<Rightarrow> number \<Rightarrow> bool" where
  "ge_number x (Num y) = (x \<ge> y)"
| "ge_number x PosInfinity = False"
| "ge_number x NegInfinity = True"
| "ge_number x NaN = False"

section \<open>Pot odds, equity and the decision engine\<close>

definition potOddsPct :: "real \<Rightarrow> real \<Rightarrow> number" where
  "potOddsPct pot callAmt = times_const (js_div callAmt (pot + callAmt)) 100"

definition approxEquityFromOuts :: "int \<Rightarrow> int" where
  "approxEquityFromOuts outs = min 100 (outs * 4)"

definition strongMade :: "string list" where
  "strongMade = [''Two Pair'', ''Three of a Kind'', ''Straight'', ''Flush'',
                 ''Full House'', ''Four of a Kind'', ''Straight Flush'']"

definition recommendDecision :: "string \<Rightarrow> int \<Rightarrow> number \<Rightarrow> Decision" where
  "recommendDecision bestHand outs reqPct =
     (if bestHand \<in> set strongMade then Raise
      else (let equity = approxEquityFromOuts outs in
            if outs \<ge> 15 then Raise
            else if ge_number (real_of_int (equity + 2)) reqPct then Call
            else Fold))"

definition calcImprovementOuts :: "string \<Rightarrow> int" where
  "calcImprovementOuts bestHandLabel =
     (if bestHandLabel = ''High Card'' then 6
      else if bestHandLabel = ''One Pair'' then 5
      else if bestHandLabel = ''Two Pair'' then 4
      else if bestHandLabel = ''Three of a Kind'' then 7
      else if bestHandLabel = ''Full House'' then 1
      else 0)"

section \<open>The flop evaluator\<close>

text \<open>
  A \<^verbatim>\<open>Map\<close> with numeric values is an association list in insertion order
  (\<^verbatim>\<open>Map.prototype.set\<close> overwrites in place or appends, which is \<open>AList.update\<close>);
  a \<^verbatim>\<open>Set\<close> is a list without repetition, in insertion order.
\<close>

text \<open>\<^verbatim>\<open>m.get(k) ?? 0\<close>\<close>

definition get_or_0 :: "('k \<times> nat) list \<Rightarrow> 'k \<Rightarrow> nat" where
  "get_or_0 m k = (case map_of m k of None \<Rightarrow> 0 | Some v \<Rightarrow> v)"

definition Set_add :: "'a list \<Rightarrow> 'a \<Rightarrow> 'a list" where
  "Set_add s v = (if v \<in> set s then s else s @ [v])"

definition Set_delete :: "'a list \<Rightarrow> 'a \<Rightarrow> 'a list" where
  "Set_delete s v = filter (\<lambda>x. x \<noteq> v) s"

definition countByRank :: "PlayingCard list \<Rightarrow> (Rank \<times> nat) list" where
  "countByRank cards =
     fold (\<lambda>c m. AList.update (rank c) (get_or_0 m (rank c) + 1) m) cards []"

definition countBySuit :: "PlayingCard list \<Rightarrow> (Suit \<times> nat) list" where
  "countBySuit cards =
     fold (\<lambda>c m. AList.update (suit c) (get_or_0 m (suit c) + 1) m) cards []"

text \<open>The comparator \<^verbatim>\<open>(a, b) => a - b\<close> sorts numbers upwards.\<close>

definition uniqueSortedRankVals :: "PlayingCard list \<Rightarrow> int list" where
  "uniqueSortedRankVals cards =
     sort (fold (\<lambda>c s. Set_add s (rankValue (rank c))) cards [])"

record PairTripsQuads =
  pairs :: nat
  trips :: nat
  quads :: nat

text \<open>The comparator \<^verbatim>\<open>(a, b) => b - a\<close> sorts numbers downwards.\<close>

definition hasPairTripsQuads :: "PlayingCard list \<Rightarrow> PairTripsQuads" where
  "hasPairTripsQuads cards =
     (let byRank = countByRank cards;
          counts = rev (sort (map snd byRank))
      in \<lparr>pairs = length (filter (\<lambda>c. c = 2) counts),
          trips = length (filter (\<lambda>c. c = 3) counts),
          quads = length (filter (\<lambda>c. c = 4) counts)\<rparr>)"

definition isMadeFlush :: "PlayingCard list \<Rightarrow> bool" where
  "isMadeFlush cards = (let bySuit = countBySuit cards in list_ex (\<lambda>v. v \<ge> 5) (map snd bySuit))"

text \<open>\<^verbatim>\<open>vals.includes(12) ? [...vals, -1] : vals\<close>, then sorted in place.\<close>

definition withWheel :: "int list \<Rightarrow> int list" where
  "withWheel vals = sort (if 12 \<in> set vals then vals @ [-1] else vals)"

text \<open>
  The loop of \<^verbatim>\<open>isMadeStraight\<close> from index 1 on: \<open>prev\<close> is the element at \<open>i - 1\<close>,
  \<open>run\<close> the counter, the list the elements from index \<open>i\<close> on. Falling off the end
  is the final \<^verbatim>\<open>return false\<close>.
\<close>

fun straight_loop :: "int \<Rightarrow> nat \<Rightarrow> int list \<Rightarrow> bool" where
  "straight_loop prev run [] = False"
| "straight_loop prev run (v # vs) =
     (if v = prev + 1 then
        (if run + 1 \<ge> 5 then True else straight_loop v (run + 1) vs)
      else if v \<noteq> prev then straight_loop v 1 vs
      else straight_loop v run vs)"

definition isMadeStraight :: "PlayingCard list \<Rightarrow> bool" where
  "isMadeStraight cards =
     (let vals = uniqueSortedRankVals cards;
          valsWithWheel = withWheel vals
      in case valsWithWheel of [] \<Rightarrow> False | v # vs \<Rightarrow> straight_loop v 1 vs)"

text \<open>The four nested index loops of \<^verbatim>\<open>comb4\<close>.\<close>

definition comb4 :: "'a list \<Rightarrow> 'a list list" where
  "comb4 a =
     concat (map (\<lambda>i.
       concat (map (\<lambda>j.
         concat (map (\<lambda>k.
           map (\<lambda>l. [a ! i, a ! j, a ! k, a ! l]) [k + 1 ..< length a])
         [j + 1 ..< length a]))
       [i + 1 ..< length a]))
     [0 ..< length a])"

record StraightDraw =
  oesd :: bool
  gutshot :: bool

text \<open>The body of the loop over the combinations: \<open>t\<close> always has four elements.\<close>

definition draw_step :: "int list \<Rightarrow> StraightDraw \<Rightarrow> StraightDraw" where
  "draw_step c st =
     (let t = sort (map (\<lambda>v. if v = -1 then 0 else v) c);
          span = t ! 3 - t ! 0
      in if span = 3 then st\<lparr>oesd := True\<rparr>
         else if span = 4 then
           (let needed = fold (\<lambda>v s. Set_add s v) [t ! 0 .. t ! 3] [];
                needed' = fold (\<lambda>v s. Set_delete s v) t needed
            in if length needed' = 1 then st\<lparr>gutshot := True\<rparr> else st)
         else st)"

definition straightDrawType :: "PlayingCard list \<Rightarrow> PlayingCard list \<Rightarrow> StraightDraw" where
  "straightDrawType hole0 flop0 =
     (let cards = hole0 @ flop0;
          vals = uniqueSortedRankVals cards;
          valsWithWheel = withWheel vals;
          uniq = fold (\<lambda>v s. Set_add s v) valsWithWheel []
      in fold draw_step (comb4 uniq) \<lparr>oesd = False, gutshot = False\<rparr>)"

record EvalResult =
  bestHandLabel :: string
  drawLabel :: string
  outs :: int
  improvementOuts :: int

text \<open>\<^verbatim>\<open>Math.max(...xs)\<close>; of no argument it is minus infinity, here \<open>None\<close>.\<close>

definition Math_max :: "nat list \<Rightarrow> nat option" where
  "Math_max xs = (case xs of [] \<Rightarrow> None | x # ys \<Rightarrow> Some (fold max ys x))"

fun evalOnFlop ::
  "PlayingCard \<times> PlayingCard \<Rightarrow> PlayingCard \<times> PlayingCard \<times> PlayingCard \<Rightarrow> EvalResult"
where
  "evalOnFlop (h1, h2) (f1, f2, f3) =
     (let cards = [h1, h2] @ [f1, f2, f3];
          ptq = hasPairTripsQuads cards;
          madeFlush = isMadeFlush cards;
          madeStraight = isMadeStraight cards;
          label =
            (if madeFlush \<and> madeStraight then ''Straight Flush''
             else if quads ptq \<noteq> 0 then ''Four of a Kind''
             else if trips ptq \<noteq> 0 \<and> pairs ptq \<noteq> 0 then ''Full House''
             else if madeFlush then ''Flush''
             else if madeStraight then ''Straight''
             else if trips ptq \<noteq> 0 then ''Three of a Kind''
             else if pairs ptq \<ge> 2 then ''Two Pair''
             else if pairs ptq = 1 then ''One Pair''
             else ''High Card'');
          flushCounts = countBySuit cards;
          maxSuit = Math_max (map snd flushCounts);
          isFlushDraw = (maxSuit = Some 4);
          sd = straightDrawType [h1, h2] [f1, f2, f3];
          (n, draw) =
            (if \<not> madeFlush \<and> \<not> madeStraight then
               (if isFlushDraw \<and> oesd sd then (15, ''Combo Draw (Flush + Straight)'')
                else if isFlushDraw then (9, ''Flush Draw'')
                else if oesd sd then (8, ''Open-Ended Straight Draw'')
                else if gutshot sd then (4, ''Gutshot Straight Draw'')
                else (0, ''None''))
             else (0, ''None''))
      in \<lparr>bestHandLabel = label, drawLabel = draw, outs = n,
          improvementOuts = calcImprovementOuts label\<rparr>)"

section \<open>Shuffling and the spot generator\<close>

text \<open>
  The calls of \<^verbatim>\<open>Math.random()\<close> are numbered in the order they are made: a random
  source gives the value of call number \<open>k\<close>, and the functions that draw take the
  number of the next call and return the one after their last. \<^verbatim>\<open>Math.random()\<close>
  returns a value from 0 up to but not including 1.
\<close>

definition random_ok :: "(nat \<Rightarrow> real) \<Rightarrow> bool" where
  "random_ok rnd = (\<forall>k. 0 \<le> rnd k \<and> rnd k < 1)"

text \<open>\<^verbatim>\<open>Math.floor(Math.random() * n)\<close>\<close>

definition random_index :: "real \<Rightarrow> nat \<Rightarrow> nat" where
  "random_index u n = nat \<lfloor>u * real n\<rfloor>"

text \<open>
  Arrays are objects referred to by address: the heap is the list of the arrays
  allocated so far, an address is a position in it, and a new array goes to the end.
\<close>

type_synonym 'a heap = "'a list list"

definition alloc :: "'a heap \<Rightarrow> 'a list \<Rightarrow> nat \<times> 'a heap" where
  "alloc h xs = (length h, h @ [xs])"

text \<open>
  The loop of \<^verbatim>\<open>shuffle\<close> on the array at address \<open>a\<close>, from index \<open>i\<close> down to 1.
  The swap reads both elements, then writes \<open>a[i]\<close>, then \<open>a[j]\<close>.
\<close>

fun shuffle_loop :: "(nat \<Rightarrow> real) \<Rightarrow> nat \<Rightarrow> nat \<Rightarrow> nat \<Rightarrow> 'a heap \<Rightarrow> 'a heap \<times> nat" where
  "shuffle_loop rnd a 0 k h = (h, k)"
| "shuffle_loop rnd a (Suc n) k h =
     (let i = Suc n;
          j = random_index (rnd k) (i + 1);
          x = h ! a ! j;
          y = h ! a ! i;
          h1 = h[a := (h ! a)[i := x]];
          h2 = h1[a := (h1 ! a)[j := y]]
      in shuffle_loop rnd a n (k + 1) h2)"

text \<open>\<^verbatim>\<open>shuffle\<close> of the array at address \<open>arr\<close>: the copy \<^verbatim>\<open>[...arr]\<close> is a new array;
  the result is its address, the heap and the number of the next random call.\<close>

definition shuffle :: "(nat \<Rightarrow> real) \<Rightarrow> nat \<Rightarrow> 'a heap \<Rightarrow> nat \<Rightarrow> nat \<times> 'a heap \<times> nat" where
  "shuffle rnd k h arr =
     (let (a, h1) = alloc h (h ! arr);
          (h2, k') = shuffle_loop rnd a (length (h1 ! a) - 1) k h1
      in (a, h2, k'))"

text \<open>
  The \<^verbatim>\<open>solution\<close> of a \<^verbatim>\<open>Spot\<close> holds the four fields of the evaluation, the stored
  pot odds and the decision. Its two texts (\<^verbatim>\<open>decisionWhy\<close>, \<^verbatim>\<open>explainer\<close>) are
  formatted from the other fields and are left out.
\<close>

record Solution = EvalResult +
  solution_potOddsPct :: number
  decision :: Decision

record Spot =
  hole :: "PlayingCard \<times> PlayingCard"
  flop :: "PlayingCard \<times> PlayingCard \<times> PlayingCard"
  pot :: real
  betToCall :: real
  solution :: Solution

definition genSpot :: "Mode \<Rightarrow> (nat \<Rightarrow> real) \<Rightarrow> Spot" where
  "genSpot mode rnd =
     (let (d0, h0) = alloc [] makeDeck;
          (d, h, k) = shuffle rnd 0 h0 d0;
          deck = h ! d;
          hole1 = (deck ! 0, deck ! 1);
          flop1 = (deck ! 2, deck ! 3, deck ! 4);
          pot1 = [40, 50, 60, 80, 100, 120] ! random_index (rnd k) 6;
          bet1 = [10, 15, 20, 25, 30] ! random_index (rnd (k + 1)) 5;
          (pot2, bet2) = (if mode = HAND \<or> mode = OUTS then (0, 0) else (pot1, bet1));
          ev = evalOnFlop hole1 flop1;
          reqPct = (if bet2 \<noteq> 0 then potOddsPct pot2 bet2 else Num 0);
          decision1 =
            (if mode = DECISION
             then recommendDecision (bestHandLabel ev) (outs ev) reqPct else Call);
          finalDecision = (if mode = DECISION then decision1 else Call)
      in \<lparr>hole = hole1, flop = flop1, pot = pot2, betToCall = bet2,
          solution =
            \<lparr>bestHandLabel = bestHandLabel ev, drawLabel = drawLabel ev, outs = outs ev,
             improvementOuts = improvementOuts ev,
             solution_potOddsPct = div_const (Math_round (times_const reqPct 10)) 10,
             decision = finalDecision\<rparr>\<rparr>)"

section \<open>What the specification says, in its own words\<close>


definition suit_count :: "PlayingCard list \<Rightarrow> Suit \<Rightarrow> nat" where
  "suit_count cards s = length (filter (\<lambda>c. suit c = s) cards)"

text \<open>The distinct rank values of the cards, with the synthetic low ace \<open>-1\<close> beside an
  ace.\<close>

definition wheel_values :: "PlayingCard list \<Rightarrow> int set" where
  "wheel_values cards =
     (rankValue \<circ> rank) ` set cards \<union> (if RA \<in> rank ` set cards then {-1} else {})"






text \<open>A flush draw: exactly 4 cards of one suit.\<close>

definition spec_flush_draw :: "PlayingCard list \<Rightarrow> bool" where
  "spec_flush_draw cards = (\<exists>s. suit_count cards s = 4)"

text \<open>What the loop of \<^verbatim>\<open>shuffle\<close> does to the contents of its array, apart from the
  heap: used to state what \<open>shuffle_loop\<close> leaves in the heap.\<close>

fun swap_loop :: "(nat \<Rightarrow> real) \<Rightarrow> nat \<Rightarrow> nat \<Rightarrow> 'a list \<Rightarrow> 'a list" where
  "swap_loop rnd 0 k xs = xs"
| "swap_loop rnd (Suc n) k xs =
     (let j = random_index (rnd k) (Suc n + 1)
      in swap_loop rnd n (k + 1) (xs[Suc n := xs ! j, j := xs ! Suc n]))"

text \<open>The straight draws in the words of the specification, over a set of rank values:
  some four-element subset has span (largest minus smallest) 3; some four-element subset
  has span 4 with exactly one value of its range missing.\<close>

definition spec_oesd :: "int set \<Rightarrow> bool" where
  "spec_oesd V = (\<exists>T. T \<subseteq> V \<and> card T = 4 \<and> Max T - Min T = 3)"

definition spec_gutshot :: "int set \<Rightarrow> bool" where
  "spec_gutshot V =
     (\<exists>T. T \<subseteq> V \<and> card T = 4 \<and> Max T - Min T = 4 \<and> card ({Min T .. Max T} - T) = 1)"

text \<open>The draw label and the draw outs by the documented precedence, over the
  flush draw of the cards and the straight draws of a set of rank values.\<close>

definition spec_draw :: "PlayingCard list \<Rightarrow> int set \<Rightarrow> string \<times> int" where
  "spec_draw cards V =
     (if spec_flush_draw cards \<and> spec_oesd V then (''Combo Draw (Flush + Straight)'', 15)
      else if spec_flush_draw cards then (''Flush Draw'', 9)
      else if spec_oesd V then (''Open-Ended Straight Draw'', 8)
      else if spec_gutshot V then (''Gutshot Straight Draw'', 4)
      else (''None'', 0))"

text \<open>The values with the low ace written 0, as the loop of \<^verbatim>\<open>straightDrawType\<close>
  rewrites it.\<close>

definition low_ace_as_zero :: "int set \<Rightarrow> int set" where
  "low_ace_as_zero V = (\<lambda>v. if v = -1 then 0 else v) ` V"

text \<open>The pot odds as a function of the pot and the bet to call: the bet over pot plus
  bet, times 100, for a positive bet, and 0 for no bet.\<close>

definition spec_potOdds :: "real \<Rightarrow> real \<Rightarrow> real" where
  "spec_potOdds p b = (if b > 0 then b / (p + b) * 100 else 0)"

text \<open>Two random sources: every draw 0; and every draw 0 but call number 52 (the bet
  size of \<^verbatim>\<open>genSpot\<close>), which is a quarter.\<close>

definition zero_source :: "nat \<Rightarrow> real" where
  "zero_source k = 0"

definition example_source :: "nat \<Rightarrow> real" where
  "example_source k = (if k = 52 then 1 / 4 else 0)"

section \<open>Counting by rank and by suit\<close>


lemma count_fold_snoc:
  "fold (\<lambda>c m. AList.update (f c) (get_or_0 m (f c) + 1) m) (cs @ [c]) [] =
   (let m = fold (\<lambda>c m. AList.update (f c) (get_or_0 m (f c) + 1) m) cs []
    in AList.update (f c) (get_or_0 m (f c) + 1) m)"
  by (simp add: Let_def)

lemma count_fold:
  "distinct (map fst (fold (\<lambda>c m. AList.update (f c) (get_or_0 m (f c) + 1) m) cards [])) \<and>
   (\<forall>k. map_of (fold (\<lambda>c m. AList.update (f c) (get_or_0 m (f c) + 1) m) cards []) k =
      (if length (filter (\<lambda>c. f c = k) cards) = 0 then None
       else Some (length (filter (\<lambda>c. f c = k) cards))))"
proof (induction cards rule: rev_induct)
  case Nil
  show ?case by simp
next
  case (snoc c cs)
  let ?m = "fold (\<lambda>c m. AList.update (f c) (get_or_0 m (f c) + 1) m) cs []"
  have d: "distinct (map fst ?m)" using snoc by blast
  have g: "get_or_0 ?m (f c) = length (filter (\<lambda>x. f x = f c) cs)"
    using snoc by (simp add: get_or_0_def)
  show ?case
    unfolding count_fold_snoc Let_def
    using snoc d g by (auto simp: distinct_update update_conv')
qed




lemma countBySuit_map_of:
  "map_of (countBySuit cards) s =
     (if suit_count cards s = 0 then None else Some (suit_count cards s))"
  using count_fold [of suit cards] by (simp add: countBySuit_def suit_count_def)


lemma countBySuit_distinct: "distinct (map fst (countBySuit cards))"
  using count_fold [of suit cards] by (simp add: countBySuit_def)







lemma suit_values:
  "set (map snd (countBySuit cards)) = {n. n \<noteq> 0 \<and> (\<exists>s. suit_count cards s = n)}"
proof -
  have "(v \<in> snd ` set (countBySuit cards)) = (v \<noteq> 0 \<and> (\<exists>s. suit_count cards s = v))" for v
  proof -
    have "(v \<in> snd ` set (countBySuit cards)) = (\<exists>s. map_of (countBySuit cards) s = Some v)"
      using countBySuit_distinct [of cards] by (force simp: map_of_eq_Some_iff)
    also have "\<dots> = (v \<noteq> 0 \<and> (\<exists>s. suit_count cards s = v))"
      by (auto simp: countBySuit_map_of)
    finally show ?thesis .
  qed
  then show ?thesis by auto
qed

lemma isMadeFlush_iff: "isMadeFlush cards \<longleftrightarrow> (\<exists>s. suit_count cards s \<ge> 5)"
proof -
  have "isMadeFlush cards \<longleftrightarrow> (\<exists>v \<in> set (map snd (countBySuit cards)). v \<ge> 5)"
    by (simp add: isMadeFlush_def list_ex_iff)
  also have "\<dots> \<longleftrightarrow> (\<exists>s. suit_count cards s \<ge> 5)"
  proof
    assume "\<exists>v \<in> set (map snd (countBySuit cards)). v \<ge> 5"
    then show "\<exists>s. suit_count cards s \<ge> 5" unfolding suit_values by auto
  next
    assume "\<exists>s. suit_count cards s \<ge> 5"
    then obtain s where s: "suit_count cards s \<ge> 5" ..
    then have "suit_count cards s \<in> set (map snd (countBySuit cards))"
      unfolding suit_values by auto
    with s show "\<exists>v \<in> set (map snd (countBySuit cards)). v \<ge> 5" by blast
  qed
  finally show ?thesis .
qed

lemma Math_max_Some:
  "Math_max xs = Some n \<longleftrightarrow> xs \<noteq> [] \<and> Max (set xs) = n"
  by (cases xs) (simp_all add: Math_max_def Max.set_eq_fold del: set_simps)

lemma flush_draw_iff:
  "Math_max (map snd (countBySuit cards)) = Some 4 \<longleftrightarrow>
   (\<exists>s. suit_count cards s = 4) \<and> (\<forall>s. suit_count cards s \<le> 4)"
proof -
  let ?V = "set (map snd (countBySuit cards))"
  have fin: "finite ?V" by simp
  have ne: "?V \<noteq> {} \<longleftrightarrow> map snd (countBySuit cards) \<noteq> []" by simp
  have "Math_max (map snd (countBySuit cards)) = Some 4 \<longleftrightarrow> ?V \<noteq> {} \<and> Max ?V = 4"
    unfolding Math_max_Some ne ..
  also have "\<dots> \<longleftrightarrow> 4 \<in> ?V \<and> (\<forall>v \<in> ?V. v \<le> 4)"
    using fin by (metis Max_eqI Max_ge Max_in empty_iff)
  also have "\<dots> \<longleftrightarrow> (\<exists>s. suit_count cards s = 4) \<and> (\<forall>s. suit_count cards s \<le> 4)"
  proof -
    have a: "4 \<in> ?V \<longleftrightarrow> (\<exists>s. suit_count cards s = 4)" unfolding suit_values by auto
    have b: "(\<forall>v \<in> ?V. v \<le> 4) \<longleftrightarrow> (\<forall>s. suit_count cards s \<le> 4)"
    proof
      assume h: "\<forall>v \<in> ?V. v \<le> 4"
      show "\<forall>s. suit_count cards s \<le> 4"
      proof
        fix s
        show "suit_count cards s \<le> 4"
        proof (cases "suit_count cards s = 0")
          case True then show ?thesis by simp
        next
          case False
          then have "suit_count cards s \<in> ?V" unfolding suit_values by auto
          with h show ?thesis by blast
        qed
      qed
    next
      assume "\<forall>s. suit_count cards s \<le> 4"
      then show "\<forall>v \<in> ?V. v \<le> 4" unfolding suit_values by auto
    qed
    show ?thesis unfolding a b ..
  qed
  finally show ?thesis .
qed

section \<open>Straights\<close>






lemma rankValue_simps:
  "rankValue R2 = 0" "rankValue R3 = 1" "rankValue R4 = 2" "rankValue R5 = 3"
  "rankValue R6 = 4" "rankValue R7 = 5" "rankValue R8 = 6" "rankValue R9 = 7"
  "rankValue RT = 8" "rankValue RJ = 9" "rankValue RQ = 10" "rankValue RK = 11"
  "rankValue RA = 12"
  by (simp_all add: rankValue_def RANKS_def)

lemma rankValue_ace: "rankValue r = 12 \<longleftrightarrow> r = RA"
  by (cases r) (simp_all add: rankValue_simps)

lemma set_fold_Set_add: "set (fold (\<lambda>c s. Set_add s (g c)) cs s0) = set s0 \<union> g ` set cs"
  by (induction cs arbitrary: s0) (auto simp: Set_add_def)

lemma set_uniqueSortedRankVals:
  "set (uniqueSortedRankVals cards) = (rankValue \<circ> rank) ` set cards"
  by (simp add: uniqueSortedRankVals_def set_fold_Set_add)




section \<open>The fields of an evaluation\<close>

lemma bestHandLabel_chain:
  "bestHandLabel (evalOnFlop (h1, h2) (f1, f2, f3)) =
     (let cs = [h1, h2, f1, f2, f3]; ptq = hasPairTripsQuads cs in
      if isMadeFlush cs \<and> isMadeStraight cs then ''Straight Flush''
      else if quads ptq \<noteq> 0 then ''Four of a Kind''
      else if trips ptq \<noteq> 0 \<and> pairs ptq \<noteq> 0 then ''Full House''
      else if isMadeFlush cs then ''Flush''
      else if isMadeStraight cs then ''Straight''
      else if trips ptq \<noteq> 0 then ''Three of a Kind''
      else if 2 \<le> pairs ptq then ''Two Pair''
      else if pairs ptq = 1 then ''One Pair''
      else ''High Card'')"
  by (simp add: Let_def split_def)

lemma draw_chain:
  "(drawLabel (evalOnFlop (h1, h2) (f1, f2, f3)), outs (evalOnFlop (h1, h2) (f1, f2, f3))) =
     (let cs = [h1, h2, f1, f2, f3];
          fd = (Math_max (map snd (countBySuit cs)) = Some 4);
          sd = straightDrawType [h1, h2] [f1, f2, f3] in
      if \<not> isMadeFlush cs \<and> \<not> isMadeStraight cs then
        (if fd \<and> oesd sd then (''Combo Draw (Flush + Straight)'', 15)
         else if fd then (''Flush Draw'', 9)
         else if oesd sd then (''Open-Ended Straight Draw'', 8)
         else if gutshot sd then (''Gutshot Straight Draw'', 4)
         else (''None'', 0))
      else (''None'', 0))"
  by (simp add: Let_def split_def)

lemma improvementOuts_evalOnFlop:
  "improvementOuts (evalOnFlop (h1, h2) (f1, f2, f3)) =
     calcImprovementOuts (bestHandLabel (evalOnFlop (h1, h2) (f1, f2, f3)))"
  by (simp add: Let_def split_def)

lemma flush_draw_spec:
  "\<not> isMadeFlush cs \<Longrightarrow>
   Math_max (map snd (countBySuit cs)) = Some 4 \<longleftrightarrow> spec_flush_draw cs"
  unfolding flush_draw_iff spec_flush_draw_def isMadeFlush_iff
  by (metis not_less_eq_eq eval_nat_numeral(3) nat_le_linear)

section \<open>The shuffle on the heap\<close>
lemma random_index_less:
  assumes "0 \<le> u" "u < 1" "0 < n"
  shows "random_index u n < n"
proof -
  have "u * real n < real n" using assms by simp
  then have "\<lfloor>u * real n\<rfloor> < int n" by (simp add: floor_less_iff)
  moreover have "0 \<le> \<lfloor>u * real n\<rfloor>" using assms by simp
  ultimately show ?thesis unfolding random_index_def by linarith
qed

lemma shuffle_loop_heap:
  "a < length h \<Longrightarrow>
   shuffle_loop rnd a n k h = (h[a := swap_loop rnd n k (h ! a)], k + n)"
proof (induction n arbitrary: k h)
  case 0
  then show ?case by simp
next
  case (Suc n)
  let ?j = "random_index (rnd k) (Suc n + 1)"
  let ?xs = "(h ! a)[Suc n := h ! a ! ?j, ?j := h ! a ! Suc n]"
  have step: "shuffle_loop rnd a (Suc n) k h = shuffle_loop rnd a n (k + 1) (h[a := ?xs])"
    using Suc.prems by (simp add: Let_def)
  have "a < length (h[a := ?xs])" using Suc.prems by simp
  from Suc.IH [OF this, of "k + 1"] show ?case
    unfolding step using Suc.prems by (simp add: Let_def)
qed

lemma swap_loop_mset:
  "random_ok rnd \<Longrightarrow> n < length xs \<or> n = 0 \<Longrightarrow> mset (swap_loop rnd n k xs) = mset xs"
proof (induction n arbitrary: k xs)
  case 0
  then show ?case by simp
next
  case (Suc n)
  let ?j = "random_index (rnd k) (Suc n + 1)"
  have i: "Suc n < length xs" using Suc.prems by simp
  have "?j < Suc n + 1"
    using Suc.prems(1) by (intro random_index_less) (simp_all add: random_ok_def)
  then have j: "?j < length xs" using i by simp
  have sw: "mset (xs[Suc n := xs ! ?j, ?j := xs ! Suc n]) = mset xs"
    using mset_swap [OF j i] by simp
  have "n < length (xs[Suc n := xs ! ?j, ?j := xs ! Suc n]) \<or> n = 0" using i by simp
  from Suc.IH [OF Suc.prems(1) this, of "k + 1"] sw show ?case by (simp add: Let_def)
qed

lemma shuffle_result:
  assumes "arr < length h"
  shows "shuffle rnd k h arr =
     (length h, h @ [swap_loop rnd (length (h ! arr) - 1) k (h ! arr)], k + (length (h ! arr) - 1))"
proof -
  have "length h < length (h @ [h ! arr])" by simp
  from shuffle_loop_heap [OF this] show ?thesis
    by (simp add: shuffle_def alloc_def Let_def)
qed

lemma makeDeck_distinct: "distinct makeDeck"
  by (simp add: makeDeck_def SUITS_def RANKS_def mkCard_def)

lemma makeDeck_length: "length makeDeck = 52"
  by (simp add: makeDeck_def SUITS_def RANKS_def)

section \<open>Straight draws over a set of values\<close>

lemma spec_oesd_iff: "spec_oesd V \<longleftrightarrow> (\<exists>m. {m .. m + 3} \<subseteq> V)"
proof
  assume "spec_oesd V"
  then obtain T where T: "T \<subseteq> V" "card T = 4" "Max T - Min T = 3"
    unfolding spec_oesd_def by blast
  have fin: "finite T" using T(2) by (metis card.infinite zero_neq_numeral)
  have "T \<subseteq> {Min T .. Max T}" using fin by auto
  then have sub: "T \<subseteq> {Min T .. Min T + 3}" using T(3) by (simp add: algebra_simps)
  have "card {Min T .. Min T + 3} = 4" by simp
  then have "T = {Min T .. Min T + 3}"
    using card_subset_eq [OF _ sub] T(2) by simp
  then show "\<exists>m. {m .. m + 3} \<subseteq> V" using T(1) by metis
next
  assume "\<exists>m. {m .. m + 3} \<subseteq> V"
  then obtain m where m: "{m .. m + 3} \<subseteq> V" ..
  have "Max {m .. m + 3} = m + 3" by (rule Max_eqI) auto
  moreover have "Min {m .. m + 3} = m" by (rule Min_eqI) auto
  ultimately have "card {m .. m + 3} = 4" "Max {m .. m + 3} - Min {m .. m + 3} = 3" by simp_all
  with m show "spec_oesd V" unfolding spec_oesd_def by blast
qed

lemma low_ace_hand_values:
  "wheel_values [mkCard RA Spades, mkCard R2 Hearts, mkCard R3 Diamonds, mkCard R5 Clubs,
     mkCard RK Spades] = {-1, 0, 1, 3, 11, 12}"
  by (auto simp: wheel_values_def mkCard_def rankValue_simps)

lemma no_run_of_four: "\<not> spec_oesd {-1, 0, 1, 3, 11, 12}" "\<not> spec_oesd {0, 1, 3, 11, 12}"
proof -
  have "\<not> {m .. m + 3} \<subseteq> {-1, 0, 1, 3, 11, 12}" for m :: int
  proof
    assume a: "{m .. m + 3} \<subseteq> {-1, 0, 1, 3, 11, 12}"
    from a have m0: "m \<in> {-1, 0, 1, 3, 11, 12}" by (rule subsetD) simp
    from a have m1: "m + 1 \<in> {-1, 0, 1, 3, 11, 12}" by (rule subsetD) simp
    from a have m2: "m + 2 \<in> {-1, 0, 1, 3, 11, 12}" by (rule subsetD) simp
    from a have m3: "m + 3 \<in> {-1, 0, 1, 3, 11, 12}" by (rule subsetD) simp
    from m0 m1 have "m = -1 \<or> m = 0 \<or> m = 11" by auto
    with m2 have "m = -1" by auto
    with m3 show False by simp
  qed
  then show "\<not> spec_oesd {-1, 0, 1, 3, 11, 12}" unfolding spec_oesd_iff by blast
  have "\<not> {m .. m + 3} \<subseteq> {0, 1, 3, 11, 12}" for m :: int
  proof
    assume a: "{m .. m + 3} \<subseteq> {0, 1, 3, 11, 12}"
    from a have m0: "m \<in> {0, 1, 3, 11, 12}" by (rule subsetD) simp
    from a have m1: "m + 1 \<in> {0, 1, 3, 11, 12}" by (rule subsetD) simp
    from a have m2: "m + 2 \<in> {0, 1, 3, 11, 12}" by (rule subsetD) simp
    from m0 m1 have "m = 0 \<or> m = 11" by auto
    with m2 show False by auto
  qed
  then show "\<not> spec_oesd {0, 1, 3, 11, 12}" unfolding spec_oesd_iff by blast
qed

lemma gutshot_of_low_ace: "spec_gutshot {-1, 0, 1, 3, 11, 12}"
proof -
  let ?T = "{-1, 0, 1, 3 :: int}"
  have i: "{-1 .. 3 :: int} = {-1, 0, 1, 2, 3}" by auto
  have "?T \<subseteq> {-1, 0, 1, 3, 11, 12}" "card ?T = 4" "Max ?T - Min ?T = 4" by simp_all
  moreover have "{Min ?T .. Max ?T} - ?T = {2}" using i by auto
  ultimately show ?thesis unfolding spec_gutshot_def
    by (intro exI [of _ ?T]) simp
qed

lemma wheel_draw_values:
  "wheel_values [mkCard RA Spades, mkCard R2 Hearts, mkCard R3 Diamonds, mkCard R4 Clubs,
     mkCard R9 Spades] = {-1, 0, 1, 2, 7, 12}"
  by (auto simp: wheel_values_def mkCard_def rankValue_simps)

lemma straightDrawType_wheel_draw:
  "straightDrawType [mkCard RA Spades, mkCard R2 Hearts]
      [mkCard R3 Diamonds, mkCard R4 Clubs, mkCard R9 Spades] = \<lparr>oesd = False, gutshot = False\<rparr>
   \<and> spec_oesd (wheel_values [mkCard RA Spades, mkCard R2 Hearts, mkCard R3 Diamonds,
        mkCard R4 Clubs, mkCard R9 Spades])"
proof -
  have c: "straightDrawType [mkCard RA Spades, mkCard R2 Hearts]
      [mkCard R3 Diamonds, mkCard R4 Clubs, mkCard R9 Spades] = \<lparr>oesd = False, gutshot = False\<rparr>"
    by code_simp
  have "{-1 .. -1 + 3} \<subseteq> {-1, 0, 1, 2, 7, 12 :: int}" by auto
  then have "spec_oesd {-1, 0, 1, 2, 7, 12}" unfolding spec_oesd_iff by blast
  with c show ?thesis unfolding wheel_draw_values by blast
qed

section \<open>The straight-draw loop\<close>

lemma draw_step_or:
  "draw_step c st =
     \<lparr>oesd = oesd st \<or> oesd (draw_step c \<lparr>oesd = False, gutshot = False\<rparr>),
      gutshot = gutshot st \<or> gutshot (draw_step c \<lparr>oesd = False, gutshot = False\<rparr>)\<rparr>"
  by (cases st) (simp add: draw_step_def Let_def)

lemma fold_draw_step:
  "fold draw_step cs st =
     \<lparr>oesd = oesd st \<or> (\<exists>c \<in> set cs. oesd (draw_step c \<lparr>oesd = False, gutshot = False\<rparr>)),
      gutshot = gutshot st \<or> (\<exists>c \<in> set cs. gutshot (draw_step c \<lparr>oesd = False, gutshot = False\<rparr>))\<rparr>"
proof (induction cs arbitrary: st)
  case Nil
  show ?case by simp
next
  case (Cons c cs)
  show ?case
    unfolding fold_simps Cons.IH [of "draw_step c st"]
    by (subst (1 2) draw_step_or [of c st]) auto
qed

lemma fold_Set_add_distinct: "distinct (xs @ ys) \<Longrightarrow> fold (\<lambda>v s. Set_add s v) ys xs = xs @ ys"
  by (induction ys arbitrary: xs) (auto simp: Set_add_def)

lemma fold_Set_delete: "fold (\<lambda>v s. Set_delete s v) t xs = filter (\<lambda>x. x \<notin> set t) xs"
  by (induction t arbitrary: xs) (auto simp: Set_delete_def intro: filter_cong)

lemma draw_step_sorted:
  assumes "-1 < w" "w < x" "x < y" "y < z"
  shows "draw_step [w, x, y, z] \<lparr>oesd = False, gutshot = False\<rparr> =
      \<lparr>oesd = (z - w = 3), gutshot = (z - w = 4)\<rparr>"
proof -
  have m: "map (\<lambda>v. if v = -1 then 0 else v) [w, x, y, z] = [w, x, y, z]"
    using assms by auto
  have s: "sort [w, x, y, z] = [w, x, y, z]"
    using assms by (intro sorted_sort_id) simp
  have g: "length (filter (\<lambda>v. v \<notin> set [w, x, y, z]) [w .. z]) = 1" if "z - w = 4"
  proof -
    have z: "z = w + 4" using that by simp
    have c: "(x = w + 1 \<and> y = w + 2) \<or> (x = w + 1 \<and> y = w + 3) \<or> (x = w + 2 \<and> y = w + 3)"
      using assms z by arith
    have "{v. v \<notin> set [w, x, y, z]} \<inter> set [w .. z] =
        {if y = w + 2 then w + 3 else if x = w + 1 then w + 2 else w + 1}"
      using c unfolding z by (elim disjE) auto
    then have "card ({v. v \<notin> set [w, x, y, z]} \<inter> set [w .. z]) = 1" by simp
    then show ?thesis by (simp only: distinct_length_filter [OF distinct_upto])
  qed
  have n: "fold (\<lambda>v s. Set_delete s v) [w, x, y, z] (fold (\<lambda>v s. Set_add s v) [w .. z] []) =
      filter (\<lambda>v. v \<notin> set [w, x, y, z]) [w .. z]"
    by (simp only: fold_Set_delete fold_Set_add_distinct append_Nil distinct_upto)
  have i: "[w, x, y, z] ! 3 = z" "[w, x, y, z] ! 0 = w" by simp_all
  show ?thesis
    unfolding draw_step_def Let_def m s i n
    using g by (cases "z - w = 3"; cases "z - w = 4"; simp)
qed

lemma in_concat_upt:
  "x \<in> set (concat (map f [m ..< n])) \<longleftrightarrow> (\<exists>i. m \<le> i \<and> i < n \<and> x \<in> set (f i))"
  by auto

lemma in_map_upt: "x \<in> set (map g [m ..< n]) \<longleftrightarrow> (\<exists>i. m \<le> i \<and> i < n \<and> x = g i)"
  by auto

lemma comb4_unfold:
  "c \<in> set (comb4 a) \<longleftrightarrow>
   (\<exists>i. 0 \<le> i \<and> i < length a \<and> (\<exists>j. i + 1 \<le> j \<and> j < length a \<and>
      (\<exists>k. j + 1 \<le> k \<and> k < length a \<and>
        (\<exists>l. k + 1 \<le> l \<and> l < length a \<and> c = [a ! i, a ! j, a ! k, a ! l]))))"
  by (simp only: comb4_def in_concat_upt in_map_upt)

lemma comb4_iff:
  "c \<in> set (comb4 a) \<longleftrightarrow>
   (\<exists>i j k l. i < j \<and> j < k \<and> k < l \<and> l < length a \<and> c = [a ! i, a ! j, a ! k, a ! l])"
proof
  assume "c \<in> set (comb4 a)"
  then obtain i j k l where "i + 1 \<le> j" "j + 1 \<le> k" "k + 1 \<le> l" "l < length a"
    "c = [a ! i, a ! j, a ! k, a ! l]"
    unfolding comb4_unfold by (elim exE conjE)
  then have "i < j \<and> j < k \<and> k < l \<and> l < length a \<and> c = [a ! i, a ! j, a ! k, a ! l]" by simp
  then show "\<exists>i j k l. i < j \<and> j < k \<and> k < l \<and> l < length a \<and> c = [a ! i, a ! j, a ! k, a ! l]"
    by (intro exI)
next
  assume "\<exists>i j k l. i < j \<and> j < k \<and> k < l \<and> l < length a \<and> c = [a ! i, a ! j, a ! k, a ! l]"
  then obtain i j k l where h: "i < j" "j < k" "k < l" "l < length a"
    "c = [a ! i, a ! j, a ! k, a ! l]" by (elim exE conjE)
  have "0 \<le> i \<and> i < length a \<and> (i + 1 \<le> j \<and> j < length a \<and>
      (j + 1 \<le> k \<and> k < length a \<and>
        (k + 1 \<le> l \<and> l < length a \<and> c = [a ! i, a ! j, a ! k, a ! l])))"
    using h by simp
  then show "c \<in> set (comb4 a)"
    unfolding comb4_unfold by (elim conjE) (rule exI conjI | assumption)+
qed


lemma comb4_ex:
  "(\<exists>c \<in> set (comb4 a). Q c) \<longleftrightarrow>
   (\<exists>i j k l. i < j \<and> j < k \<and> k < l \<and> l < length a \<and> Q [a ! i, a ! j, a ! k, a ! l])"
  unfolding Bex_def comb4_iff by blast

lemma strict_sorted_nth:
  assumes "sorted a" "distinct a" "i < length a" "j < length a"
  shows "a ! i < a ! j \<longleftrightarrow> i < j"
proof
  assume "a ! i < a ! j"
  show "i < j"
  proof (rule ccontr)
    assume "\<not> i < j"
    then have "j \<le> i" by simp
    then have "a ! j \<le> a ! i" using assms by (simp add: sorted_nth_mono)
    with \<open>a ! i < a ! j\<close> show False by simp
  qed
next
  assume "i < j"
  then have "a ! i \<le> a ! j" using assms by (simp add: sorted_nth_mono)
  moreover have "a ! i \<noteq> a ! j" using assms \<open>i < j\<close> by (simp add: nth_eq_iff_index_eq)
  ultimately show "a ! i < a ! j" by simp
qed

lemma four_subset_span:
  fixes a :: "int list"
  assumes "sorted a" "distinct a"
  shows "(\<exists>T. T \<subseteq> set a \<and> card T = 4 \<and> Max T - Min T = n) \<longleftrightarrow>
     (\<exists>i j k l. i < j \<and> j < k \<and> k < l \<and> l < length a \<and> a ! l - a ! i = n)"
proof
  assume "\<exists>T. T \<subseteq> set a \<and> card T = 4 \<and> Max T - Min T = n"
  then obtain T where T: "T \<subseteq> set a" "card T = 4" "Max T - Min T = n" by blast
  have fin: "finite T" using T(1) by (rule finite_subset) simp
  define xs where "xs = sorted_list_of_set T"
  have xs: "set xs = T" "sorted xs" "distinct xs" "length xs = 4"
    using fin T(2) by (simp_all add: xs_def)
  from xs(4) have "length xs = Suc (Suc (Suc (Suc 0)))" by simp
  then obtain x1 x2 x3 x4 where e: "xs = [x1, x2, x3, x4]"
    by (auto simp: length_Suc_conv)
  have lt: "x1 < x2" "x2 < x3" "x3 < x4" using xs(2,3) unfolding e by auto
  have Te: "T = {x1, x2, x3, x4}" using xs(1) unfolding e by auto
  have mx: "Max T = x4" unfolding Te using lt by (intro Max_eqI) auto
  have mn: "Min T = x1" unfolding Te using lt by (intro Min_eqI) auto
  have "x1 \<in> set a" "x2 \<in> set a" "x3 \<in> set a" "x4 \<in> set a" using T(1) Te by auto
  then obtain i j k l where ix: "i < length a" "a ! i = x1" "j < length a" "a ! j = x2"
    "k < length a" "a ! k = x3" "l < length a" "a ! l = x4"
    unfolding in_set_conv_nth by blast
  have "i < j" using strict_sorted_nth [OF assms ix(1) ix(3)] ix lt by simp
  moreover have "j < k" using strict_sorted_nth [OF assms ix(3) ix(5)] ix lt by simp
  moreover have "k < l" using strict_sorted_nth [OF assms ix(5) ix(7)] ix lt by simp
  moreover have "a ! l - a ! i = n" using T(3) mx mn ix by simp
  ultimately show "\<exists>i j k l. i < j \<and> j < k \<and> k < l \<and> l < length a \<and> a ! l - a ! i = n"
    using ix(7) by blast
next
  assume "\<exists>i j k l. i < j \<and> j < k \<and> k < l \<and> l < length a \<and> a ! l - a ! i = n"
  then obtain i j k l where h: "i < j" "j < k" "k < l" "l < length a" "a ! l - a ! i = n"
    by blast
  have len: "i < length a" "j < length a" "k < length a" using h by simp_all
  have lt: "a ! i < a ! j" "a ! j < a ! k" "a ! k < a ! l"
    using strict_sorted_nth [OF assms len(1) len(2)] strict_sorted_nth [OF assms len(2) len(3)]
      strict_sorted_nth [OF assms len(3) h(4)] h by simp_all
  let ?T = "{a ! i, a ! j, a ! k, a ! l}"
  have "?T \<subseteq> set a" using len h(4) by simp
  moreover have "card ?T = 4" using lt by simp
  moreover have "Max ?T = a ! l" using lt by (intro Max_eqI) auto
  moreover have "Min ?T = a ! i" using lt by (intro Min_eqI) auto
  ultimately have "?T \<subseteq> set a \<and> card ?T = 4 \<and> Max ?T - Min ?T = n" using h(5) by simp
  then show "\<exists>T. T \<subseteq> set a \<and> card T = 4 \<and> Max T - Min T = n" by blast
qed

lemma spec_gutshot_iff: "spec_gutshot V \<longleftrightarrow> (\<exists>T. T \<subseteq> V \<and> card T = 4 \<and> Max T - Min T = 4)"
proof -
  have "card ({Min T .. Max T} - T) = 1" if "card T = 4" "Max T - Min T = 4" for T :: "int set"
  proof -
    have fin: "finite T" using that(1) by (metis card.infinite zero_neq_numeral)
    have sub: "T \<subseteq> {Min T .. Max T}" using fin by auto
    have "card {Min T .. Max T} = 5" using that(2) by simp
    then show ?thesis using card_Diff_subset [OF fin sub] that(1) by simp
  qed
  then show ?thesis unfolding spec_gutshot_def by blast
qed

lemma distinct_fold_Set_add:
  "distinct s0 \<Longrightarrow> distinct (fold (\<lambda>c s. Set_add s (g c)) cs s0)"
  by (induction cs arbitrary: s0) (auto simp: Set_add_def)

lemma uniqueSortedRankVals_sorted: "sorted (uniqueSortedRankVals cards)"
  by (simp add: uniqueSortedRankVals_def)

lemma uniqueSortedRankVals_distinct: "distinct (uniqueSortedRankVals cards)"
  by (simp add: uniqueSortedRankVals_def distinct_fold_Set_add)

lemma rankValue_nonneg: "0 \<le> rankValue r"
  by (cases r) (simp_all add: rankValue_simps)

text \<open>On cards without an ace the two flags of \<^verbatim>\<open>straightDrawType\<close> are what the
  specification says.\<close>

lemma straight_draw_fold_without_ace:
  assumes "RA \<notin> rank ` set cs"
  shows "oesd (fold draw_step (comb4 (fold (\<lambda>v s. Set_add s v)
            (withWheel (uniqueSortedRankVals cs)) [])) \<lparr>oesd = False, gutshot = False\<rparr>)
          = spec_oesd (wheel_values cs)"
    and "gutshot (fold draw_step (comb4 (fold (\<lambda>v s. Set_add s v)
            (withWheel (uniqueSortedRankVals cs)) [])) \<lparr>oesd = False, gutshot = False\<rparr>)
          = spec_gutshot (wheel_values cs)"
proof -
  let ?a = "uniqueSortedRankVals cs"
  let ?init = "\<lparr>oesd = False, gutshot = False\<rparr>"
  have sd: "sorted ?a" "distinct ?a"
    by (rule uniqueSortedRankVals_sorted, rule uniqueSortedRankVals_distinct)
  have noace: "12 \<notin> set ?a"
  proof
    assume "12 \<in> set ?a"
    then have "12 \<in> (rankValue \<circ> rank) ` set cs" unfolding set_uniqueSortedRankVals .
    then obtain c where c: "c \<in> set cs" "rankValue (rank c) = 12"
      by (auto simp: image_iff)
    then have "rank c = RA" by (simp add: rankValue_ace)
    then have "RA \<in> rank ` set cs" using c(1) by (metis imageI)
    with assms show False by simp
  qed
  have w: "withWheel ?a = ?a" using noace sd(1) by (simp add: withWheel_def sorted_sort_id)
  have u: "fold (\<lambda>v s. Set_add s v) ?a [] = ?a"
    using fold_Set_add_distinct [of "[]" ?a] sd(2) by simp
  have V: "wheel_values cs = set ?a"
    using assms unfolding set_uniqueSortedRankVals wheel_values_def by simp
  have pos: "-1 < ?a ! i" if "i < length ?a" for i
  proof -
    have "?a ! i \<in> set ?a" using that by simp
    then have "?a ! i \<in> (rankValue \<circ> rank) ` set cs" unfolding set_uniqueSortedRankVals .
    then have "0 \<le> ?a ! i" using rankValue_nonneg by (auto simp: image_iff)
    then show ?thesis by simp
  qed
  have step: "draw_step [?a ! i, ?a ! j, ?a ! k, ?a ! l] ?init =
      \<lparr>oesd = (?a ! l - ?a ! i = 3), gutshot = (?a ! l - ?a ! i = 4)\<rparr>"
    if "i < j \<and> j < k \<and> k < l \<and> l < length ?a" for i j k l
  proof -
    have len: "i < length ?a" "j < length ?a" "k < length ?a" "l < length ?a" using that by simp_all
    have "?a ! i < ?a ! j" "?a ! j < ?a ! k" "?a ! k < ?a ! l"
      using strict_sorted_nth [OF sd len(1) len(2)] strict_sorted_nth [OF sd len(2) len(3)]
        strict_sorted_nth [OF sd len(3) len(4)] that by simp_all
    with pos [OF len(1)] show ?thesis by (rule draw_step_sorted)
  qed
  have "oesd (fold draw_step (comb4 ?a) ?init) \<longleftrightarrow>
      (\<exists>c \<in> set (comb4 ?a). oesd (draw_step c ?init))"
    unfolding fold_draw_step [of "comb4 ?a" ?init] by simp
  also have "\<dots> \<longleftrightarrow>
      (\<exists>i j k l. i < j \<and> j < k \<and> k < l \<and> l < length ?a \<and> ?a ! l - ?a ! i = 3)"
  proof -
    have e: "(i < j \<and> j < k \<and> k < l \<and> l < length ?a
          \<and> oesd (draw_step [?a ! i, ?a ! j, ?a ! k, ?a ! l] ?init)) \<longleftrightarrow>
        (i < j \<and> j < k \<and> k < l \<and> l < length ?a \<and> ?a ! l - ?a ! i = 3)" for i j k l
    proof (cases "i < j \<and> j < k \<and> k < l \<and> l < length ?a")
      case True
      show ?thesis unfolding step [OF True] by simp
    next
      case False
      then show ?thesis by blast
    qed
    show ?thesis unfolding comb4_ex e ..
  qed
  also have "\<dots> \<longleftrightarrow> spec_oesd (set ?a)"
    unfolding spec_oesd_def four_subset_span [OF sd] ..
  finally show "oesd (fold draw_step (comb4 (fold (\<lambda>v s. Set_add s v)
      (withWheel ?a) [])) ?init) = spec_oesd (wheel_values cs)"
    unfolding V w u .
  have "gutshot (fold draw_step (comb4 ?a) ?init) \<longleftrightarrow>
      (\<exists>c \<in> set (comb4 ?a). gutshot (draw_step c ?init))"
    unfolding fold_draw_step [of "comb4 ?a" ?init] by simp
  also have "\<dots> \<longleftrightarrow>
      (\<exists>i j k l. i < j \<and> j < k \<and> k < l \<and> l < length ?a \<and> ?a ! l - ?a ! i = 4)"
  proof -
    have e: "(i < j \<and> j < k \<and> k < l \<and> l < length ?a
          \<and> gutshot (draw_step [?a ! i, ?a ! j, ?a ! k, ?a ! l] ?init)) \<longleftrightarrow>
        (i < j \<and> j < k \<and> k < l \<and> l < length ?a \<and> ?a ! l - ?a ! i = 4)" for i j k l
    proof (cases "i < j \<and> j < k \<and> k < l \<and> l < length ?a")
      case True
      show ?thesis unfolding step [OF True] by simp
    next
      case False
      then show ?thesis by blast
    qed
    show ?thesis unfolding comb4_ex e ..
  qed
  also have "\<dots> \<longleftrightarrow> spec_gutshot (set ?a)"
    unfolding spec_gutshot_iff four_subset_span [OF sd] ..
  finally show "gutshot (fold draw_step (comb4 (fold (\<lambda>v s. Set_add s v)
      (withWheel ?a) [])) ?init) = spec_gutshot (wheel_values cs)"
    unfolding V w u .
qed



lemma straightDrawType_unfold:
  "straightDrawType hole0 flop0 =
     fold draw_step (comb4 (fold (\<lambda>v s. Set_add s v)
       (withWheel (uniqueSortedRankVals (hole0 @ flop0))) [])) \<lparr>oesd = False, gutshot = False\<rparr>"
  by (simp only: straightDrawType_def Let_def)

lemma straightDrawType_without_ace:
  assumes "RA \<notin> rank ` set (hole0 @ flop0)"
  shows "oesd (straightDrawType hole0 flop0) = spec_oesd (wheel_values (hole0 @ flop0))"
    and "gutshot (straightDrawType hole0 flop0) = spec_gutshot (wheel_values (hole0 @ flop0))"
proof -
  show "oesd (straightDrawType hole0 flop0) = spec_oesd (wheel_values (hole0 @ flop0))"
    unfolding straightDrawType_unfold by (rule straight_draw_fold_without_ace(1) [OF assms])
  show "gutshot (straightDrawType hole0 flop0) = spec_gutshot (wheel_values (hole0 @ flop0))"
    unfolding straightDrawType_unfold by (rule straight_draw_fold_without_ace(2) [OF assms])
qed

section \<open>Draws by the flags and by the values\<close>

text \<open>Without a made flush or straight, the draw label and the outs follow the
  precedence over the flush draw and the two flags that \<^verbatim>\<open>straightDrawType\<close> returns.\<close>

lemma evalOnFlop_draw_flags:
  assumes "\<not> isMadeFlush [h1, h2, f1, f2, f3]" and "\<not> isMadeStraight [h1, h2, f1, f2, f3]"
  shows "(drawLabel (evalOnFlop (h1, h2) (f1, f2, f3)), outs (evalOnFlop (h1, h2) (f1, f2, f3))) =
     (if spec_flush_draw [h1, h2, f1, f2, f3] \<and> oesd (straightDrawType [h1, h2] [f1, f2, f3])
        then (''Combo Draw (Flush + Straight)'', 15)
      else if spec_flush_draw [h1, h2, f1, f2, f3] then (''Flush Draw'', 9)
      else if oesd (straightDrawType [h1, h2] [f1, f2, f3]) then (''Open-Ended Straight Draw'', 8)
      else if gutshot (straightDrawType [h1, h2] [f1, f2, f3]) then (''Gutshot Straight Draw'', 4)
      else (''None'', 0))"
  unfolding draw_chain Let_def flush_draw_spec [OF assms(1)]
  using assms by (simp only: simp_thms if_True)

lemma no_gutshot_with_ace_as_two: "\<not> spec_gutshot {0, 1, 3, 11, 12}"
proof
  assume "spec_gutshot {0, 1, 3, 11, 12}"
  then obtain T :: "int set" where T: "T \<subseteq> {0, 1, 3, 11, 12}" "card T = 4" "Max T - Min T = 4"
    unfolding spec_gutshot_def by blast
  have fin: "finite T" using T(2) by (metis card.infinite zero_neq_numeral)
  have ne: "T \<noteq> {}" using T(2) by auto
  have "Min T \<in> T" "Max T \<in> T" using fin ne by simp_all
  then have a: "Min T \<in> {0, 1, 3, 11, 12}" and b: "Max T \<in> {0, 1, 3, 11, 12}" using T(1) by blast+
  have "Max T = Min T + 4" using T(3) by simp
  with a b show False by auto
qed

lemma low_ace_hand_no_flush_draw:
  "\<not> spec_flush_draw [mkCard RA Spades, mkCard R2 Hearts, mkCard R3 Diamonds, mkCard R5 Clubs,
     mkCard RK Spades]"
proof -
  have "suit_count [mkCard RA Spades, mkCard R2 Hearts, mkCard R3 Diamonds, mkCard R5 Clubs,
     mkCard RK Spades] s \<noteq> 4" for s
    by (cases s) (simp_all add: suit_count_def mkCard_def)
  then show ?thesis unfolding spec_flush_draw_def by blast
qed

text \<open>On cards without an ace that is the precedence the specification documents.\<close>

lemma evalOnFlop_draw_without_ace:
  assumes "\<not> isMadeFlush [h1, h2, f1, f2, f3]" and "\<not> isMadeStraight [h1, h2, f1, f2, f3]"
    and "RA \<notin> rank ` set [h1, h2, f1, f2, f3]"
  shows "(drawLabel (evalOnFlop (h1, h2) (f1, f2, f3)), outs (evalOnFlop (h1, h2) (f1, f2, f3))) =
     spec_draw [h1, h2, f1, f2, f3] (wheel_values [h1, h2, f1, f2, f3])"
proof -
  have a: "RA \<notin> rank ` set ([h1, h2] @ [f1, f2, f3])" using assms(3) by simp
  have o: "oesd (straightDrawType [h1, h2] [f1, f2, f3]) = spec_oesd (wheel_values [h1, h2, f1, f2, f3])"
    using straightDrawType_without_ace(1) [OF a] by simp
  have g: "gutshot (straightDrawType [h1, h2] [f1, f2, f3]) =
      spec_gutshot (wheel_values [h1, h2, f1, f2, f3])"
    using straightDrawType_without_ace(2) [OF a] by simp
  show ?thesis
    unfolding evalOnFlop_draw_flags [OF assms(1,2)] spec_draw_def o g ..
qed

section \<open>The amounts of a generated spot\<close>

lemma shuffle_deck_next: "snd (snd (shuffle rnd 0 [makeDeck] 0)) = 51"
  by (simp add: shuffle_result makeDeck_length)

lemma genSpot_pot:
  "pot (genSpot mode rnd) =
     (if mode = HAND \<or> mode = OUTS then 0
      else [40, 50, 60, 80, 100, 120] ! random_index (rnd 51) 6)"
  using shuffle_deck_next [of rnd]
  by (simp add: genSpot_def alloc_def Let_def split_def del: evalOnFlop.simps)

lemma genSpot_betToCall:
  "betToCall (genSpot mode rnd) =
     (if mode = HAND \<or> mode = OUTS then 0
      else [10, 15, 20, 25, 30] ! random_index (rnd 52) 5)"
  using shuffle_deck_next [of rnd]
  by (simp add: genSpot_def alloc_def Let_def split_def del: evalOnFlop.simps)

lemma genSpot_potOddsPct:
  "solution_potOddsPct (solution (genSpot mode rnd)) =
     div_const (Math_round (times_const
       (if betToCall (genSpot mode rnd) \<noteq> 0
        then potOddsPct (pot (genSpot mode rnd)) (betToCall (genSpot mode rnd)) else Num 0) 10)) 10"
  by (simp add: genSpot_def alloc_def Let_def split_def del: evalOnFlop.simps)

lemma pot_table: "i < 6 \<Longrightarrow> [40, 50, 60, 80, 100, 120 :: real] ! i \<in> {40, 50, 60, 80, 100, 120}"
proof -
  assume "i < 6"
  then have "i = 0 \<or> i = 1 \<or> i = 2 \<or> i = 3 \<or> i = 4 \<or> i = 5" by arith
  then show ?thesis by (elim disjE) simp_all
qed

lemma bet_table: "i < 5 \<Longrightarrow> [10, 15, 20, 25, 30 :: real] ! i \<in> {10, 15, 20, 25, 30}"
proof -
  assume "i < 5"
  then have "i = 0 \<or> i = 1 \<or> i = 2 \<or> i = 3 \<or> i = 4" by arith
  then show ?thesis by (elim disjE) simp_all
qed

lemma genSpot_amounts:
  assumes "random_ok rnd"
  shows "(mode = DECISION \<longrightarrow> pot (genSpot mode rnd) \<in> {40, 50, 60, 80, 100, 120}
            \<and> betToCall (genSpot mode rnd) \<in> {10, 15, 20, 25, 30})
       \<and> (mode \<noteq> DECISION \<longrightarrow> pot (genSpot mode rnd) = 0 \<and> betToCall (genSpot mode rnd) = 0)"
proof -
  have "random_index (rnd 51) 6 < 6" "random_index (rnd 52) 5 < 5"
    using assms by (auto intro!: random_index_less simp: random_ok_def)
  then show ?thesis
    using pot_table bet_table
    by (cases mode) (simp_all add: genSpot_pot genSpot_betToCall)
qed

lemma genSpot_nonneg:
  assumes "random_ok rnd"
  shows "0 \<le> pot (genSpot mode rnd)" "0 \<le> betToCall (genSpot mode rnd)"
    "betToCall (genSpot mode rnd) \<noteq> 0 \<Longrightarrow> 0 < betToCall (genSpot mode rnd)"
  using genSpot_amounts [OF assms, of mode] by (cases "mode = DECISION"; auto)+

lemma genSpot_stored:
  assumes "random_ok rnd"
  shows "solution_potOddsPct (solution (genSpot mode rnd)) =
      Num (of_int \<lfloor>spec_potOdds (pot (genSpot mode rnd)) (betToCall (genSpot mode rnd)) * 10
        + 1 / 2\<rfloor> / 10)"
proof -
  let ?p = "pot (genSpot mode rnd)" and ?b = "betToCall (genSpot mode rnd)"
  have nn: "0 \<le> ?p" "0 \<le> ?b" using genSpot_nonneg [OF assms] by auto
  show ?thesis
  proof (cases "?b = 0")
    case True
    then show ?thesis by (simp add: genSpot_potOddsPct spec_potOdds_def)
  next
    case False
    then have b: "0 < ?b" using nn by simp
    then have "?p + ?b \<noteq> 0" using nn by simp
    then have "potOddsPct ?p ?b = Num (?b / (?p + ?b) * 100)"
      by (simp add: potOddsPct_def js_div_def)
    then show ?thesis using b False by (simp add: genSpot_potOddsPct spec_potOdds_def)
  qed
qed

lemma round_tenth_close: "\<bar>of_int \<lfloor>x * 10 + 1 / 2\<rfloor> / 10 - x\<bar> \<le> (1 / 20 :: real)"
proof -
  define y :: real where "y = of_int \<lfloor>x * 10 + 1 / 2\<rfloor>"
  have "y \<le> x * 10 + 1 / 2" unfolding y_def by (rule of_int_floor_le)
  moreover have "x * 10 + 1 / 2 < y + 1" unfolding y_def by linarith
  ultimately have "\<bar>y / 10 - x\<bar> \<le> 1 / 20" by arith
  then show ?thesis unfolding y_def .
qed

lemma zero_source_ok: "random_ok zero_source"
  by (simp add: random_ok_def zero_source_def)

lemma example_source_ok: "random_ok example_source"
  by (simp add: random_ok_def example_source_def)

lemma example_spot:
  "pot (genSpot DECISION example_source) = 40" "betToCall (genSpot DECISION example_source) = 15"
  by (simp_all add: genSpot_pot genSpot_betToCall example_source_def random_index_def)

lemma zero_spot:
  "pot (genSpot DECISION zero_source) = 40" "betToCall (genSpot DECISION zero_source) = 10"
  by (simp_all add: genSpot_pot genSpot_betToCall zero_source_def random_index_def)

section \<open>The hand classifier\<close>





section \<open>Draws and outs\<close>

text \<open>
  Claim C3, which the code breaks. The claim: for two hole cards and three flop cards on
  which there is neither a made flush nor a made straight, the draw label and the draw
  outs follow the precedence Combo (flush draw and open-ended straight draw) with 15
  outs, then Flush Draw with 9, then Open-Ended Straight Draw with 8, then Gutshot
  Straight Draw with 4, then None with 0, where a flush draw is exactly 4 cards of one
  suit among the 5 cards. On the ace of spades and 2 of hearts with the flop 3 of
  diamonds, 5 of clubs, king of spades there is no made flush and no made straight, and
  \<^verbatim>\<open>evalOnFlop\<close> returns the open-ended straight draw with 8 outs; the precedence over
  the rank values \<open>-1, 0, 1, 3, 11, 12\<close> gives the gutshot with 4 outs, and over the
  values with the low ace written 0 it gives no draw.
\<close>

theorem evalOnFlop_draw_low_ace:
  "\<not> isMadeFlush [mkCard RA Spades, mkCard R2 Hearts, mkCard R3 Diamonds, mkCard R5 Clubs,
       mkCard RK Spades]
   \<and> \<not> isMadeStraight [mkCard RA Spades, mkCard R2 Hearts, mkCard R3 Diamonds, mkCard R5 Clubs,
       mkCard RK Spades]
   \<and> (drawLabel (evalOnFlop (mkCard RA Spades, mkCard R2 Hearts)
          (mkCard R3 Diamonds, mkCard R5 Clubs, mkCard RK Spades)),
       outs (evalOnFlop (mkCard RA Spades, mkCard R2 Hearts)
          (mkCard R3 Diamonds, mkCard R5 Clubs, mkCard RK Spades)))
      = (''Open-Ended Straight Draw'', 8)
   \<and> spec_draw [mkCard RA Spades, mkCard R2 Hearts, mkCard R3 Diamonds, mkCard R5 Clubs,
         mkCard RK Spades]
        (wheel_values [mkCard RA Spades, mkCard R2 Hearts, mkCard R3 Diamonds, mkCard R5 Clubs,
         mkCard RK Spades]) = (''Gutshot Straight Draw'', 4)
   \<and> spec_draw [mkCard RA Spades, mkCard R2 Hearts, mkCard R3 Diamonds, mkCard R5 Clubs,
         mkCard RK Spades]
        (low_ace_as_zero (wheel_values [mkCard RA Spades, mkCard R2 Hearts, mkCard R3 Diamonds,
         mkCard R5 Clubs, mkCard RK Spades])) = (''None'', 0)"
proof -
  let ?cs = "[mkCard RA Spades, mkCard R2 Hearts, mkCard R3 Diamonds, mkCard R5 Clubs,
    mkCard RK Spades]"
  have f: "\<not> isMadeFlush ?cs" by code_simp
  have s: "\<not> isMadeStraight ?cs" by code_simp
  have d: "drawLabel (evalOnFlop (mkCard RA Spades, mkCard R2 Hearts)
      (mkCard R3 Diamonds, mkCard R5 Clubs, mkCard RK Spades)) = ''Open-Ended Straight Draw''"
    by code_simp
  have n: "outs (evalOnFlop (mkCard RA Spades, mkCard R2 Hearts)
      (mkCard R3 Diamonds, mkCard R5 Clubs, mkCard RK Spades)) = 8"
    by code_simp
  have z: "low_ace_as_zero {-1, 0, 1, 3, 11, 12} = {0, 1, 3, 11, 12}"
    by (auto simp: low_ace_as_zero_def)
  have 1: "spec_draw ?cs (wheel_values ?cs) = (''Gutshot Straight Draw'', 4)"
    unfolding low_ace_hand_values spec_draw_def
    using low_ace_hand_no_flush_draw no_run_of_four(1) gutshot_of_low_ace by simp
  have 2: "spec_draw ?cs (low_ace_as_zero (wheel_values ?cs)) = (''None'', 0)"
    unfolding low_ace_hand_values z spec_draw_def
    using low_ace_hand_no_flush_draw no_run_of_four(2) no_gutshot_with_ace_as_two by simp
  from f s d n 1 2 show ?thesis by simp
qed

text \<open>
  Claim C7. For two hole cards and three flop cards, \<^verbatim>\<open>evalOnFlop\<close> returns a draw label
  other than None only when the classifier finds neither a made flush nor a made
  straight on the five cards; the best-hand label is then none of Straight Flush, Flush
  and Straight.
\<close>

theorem draw_only_without_made_hand:
  assumes "drawLabel (evalOnFlop (h1, h2) (f1, f2, f3)) \<noteq> ''None''"
  shows "\<not> isMadeFlush [h1, h2, f1, f2, f3] \<and> \<not> isMadeStraight [h1, h2, f1, f2, f3]
     \<and> bestHandLabel (evalOnFlop (h1, h2) (f1, f2, f3))
         \<notin> {''Straight Flush'', ''Flush'', ''Straight''}"
proof -
  have d: "drawLabel (evalOnFlop (h1, h2) (f1, f2, f3)) = ''None''"
    if "isMadeFlush [h1, h2, f1, f2, f3] \<or> isMadeStraight [h1, h2, f1, f2, f3]"
    using that draw_chain [of h1 h2 f1 f2 f3] unfolding Let_def
    by (auto simp only: if_False simp_thms prod.inject)
  then have n: "\<not> isMadeFlush [h1, h2, f1, f2, f3]" "\<not> isMadeStraight [h1, h2, f1, f2, f3]"
    using assms by blast+
  have "bestHandLabel (evalOnFlop (h1, h2) (f1, f2, f3))
      \<notin> {''Straight Flush'', ''Flush'', ''Straight''}"
    unfolding bestHandLabel_chain Let_def using n by simp
  with n show ?thesis by blast
qed

theorem draw_only_without_made_hand_witness:
  "drawLabel (evalOnFlop (mkCard RK Hearts, mkCard RQ Hearts)
        (mkCard RJ Clubs, mkCard RT Diamonds, mkCard R2 Spades)) \<noteq> ''None''
   \<and> \<not> isMadeFlush [mkCard RK Hearts, mkCard RQ Hearts, mkCard RJ Clubs, mkCard RT Diamonds,
        mkCard R2 Spades]
   \<and> \<not> isMadeStraight [mkCard RK Hearts, mkCard RQ Hearts, mkCard RJ Clubs, mkCard RT Diamonds,
        mkCard R2 Spades]"
proof -
  have d: "drawLabel (evalOnFlop (mkCard RK Hearts, mkCard RQ Hearts)
        (mkCard RJ Clubs, mkCard RT Diamonds, mkCard R2 Spades)) \<noteq> ''None''"
    by code_simp
  from draw_only_without_made_hand [OF d] d show ?thesis by blast
qed

text \<open>
  Claim C4, as the code has it. For two hole cards and three flop cards, the improvement
  outs of \<^verbatim>\<open>evalOnFlop\<close> are the table value of the best-hand label (High Card 6, One
  Pair 5, Two Pair 4, Three of a Kind 7, Full House 1, and 0 for Straight, Flush,
  Straight Flush and Four of a Kind) whether or not a draw applies.
\<close>

theorem improvementOuts_table:
  "(bestHandLabel (evalOnFlop hl fl) = ''High Card'' \<longrightarrow> improvementOuts (evalOnFlop hl fl) = 6)
   \<and> (bestHandLabel (evalOnFlop hl fl) = ''One Pair'' \<longrightarrow> improvementOuts (evalOnFlop hl fl) = 5)
   \<and> (bestHandLabel (evalOnFlop hl fl) = ''Two Pair'' \<longrightarrow> improvementOuts (evalOnFlop hl fl) = 4)
   \<and> (bestHandLabel (evalOnFlop hl fl) = ''Three of a Kind'' \<longrightarrow>
        improvementOuts (evalOnFlop hl fl) = 7)
   \<and> (bestHandLabel (evalOnFlop hl fl) = ''Full House'' \<longrightarrow> improvementOuts (evalOnFlop hl fl) = 1)
   \<and> (bestHandLabel (evalOnFlop hl fl)
          \<in> {''Straight'', ''Flush'', ''Straight Flush'', ''Four of a Kind''} \<longrightarrow>
        improvementOuts (evalOnFlop hl fl) = 0)"
proof -
  obtain h1 h2 where h: "hl = (h1, h2)" by (cases hl)
  obtain f1 f2 f3 where f: "fl = (f1, f2, f3)" by (cases fl) auto
  show ?thesis
    unfolding h f improvementOuts_evalOnFlop by (auto simp: calcImprovementOuts_def)
qed

theorem improvementOuts_table_witness:
  "bestHandLabel (evalOnFlop (mkCard RA Spades, mkCard RA Hearts)
        (mkCard RK Spades, mkCard R7 Spades, mkCard R2 Spades)) = ''One Pair''
   \<and> drawLabel (evalOnFlop (mkCard RA Spades, mkCard RA Hearts)
        (mkCard RK Spades, mkCard R7 Spades, mkCard R2 Spades)) = ''Flush Draw''
   \<and> improvementOuts (evalOnFlop (mkCard RA Spades, mkCard RA Hearts)
        (mkCard RK Spades, mkCard R7 Spades, mkCard R2 Spades)) = 5"
proof -
  have l: "bestHandLabel (evalOnFlop (mkCard RA Spades, mkCard RA Hearts)
        (mkCard RK Spades, mkCard R7 Spades, mkCard R2 Spades)) = ''One Pair''"
    by code_simp
  have d: "drawLabel (evalOnFlop (mkCard RA Spades, mkCard RA Hearts)
        (mkCard RK Spades, mkCard R7 Spades, mkCard R2 Spades)) = ''Flush Draw''"
    by code_simp
  from improvementOuts_table [of "(mkCard RA Spades, mkCard RA Hearts)"
      "(mkCard RK Spades, mkCard R7 Spades, mkCard R2 Spades)"] l d
  show ?thesis by blast
qed

text \<open>
  Claim C4 as stated fails: on the hand A K of spades with the flop Q and J of spades
  and the 2 of hearts the draw label is the combo draw, not None, and the improvement
  outs are 6, not 0.
\<close>

theorem improvementOuts_with_draw:
  "drawLabel (evalOnFlop (mkCard RA Spades, mkCard RK Spades)
        (mkCard RQ Spades, mkCard RJ Spades, mkCard R2 Hearts)) = ''Combo Draw (Flush + Straight)''
   \<and> improvementOuts (evalOnFlop (mkCard RA Spades, mkCard RK Spades)
        (mkCard RQ Spades, mkCard RJ Spades, mkCard R2 Hearts)) = 6"
  by code_simp

section \<open>The shuffle\<close>

text \<open>
  Claim C9. For every array on the heap and every sequence of random draws (each from 0
  up to but not including 1), \<^verbatim>\<open>shuffle\<close> returns a new array that is a permutation of
  the input, the same multiset of elements, and leaves the input array and every other
  array of the heap as it was; in particular the shuffled deck holds the same 52
  distinct cards as \<^verbatim>\<open>makeDeck()\<close>, which is unchanged.
\<close>

theorem shuffle_permutation:
  assumes "random_ok rnd" and "arr < length h"
  shows "(case shuffle rnd k h arr of (a, h', k') \<Rightarrow>
            mset (h' ! a) = mset (h ! arr) \<and> (\<forall>b < length h. h' ! b = h ! b) \<and> a \<noteq> arr)
       \<and> (case shuffle rnd k [makeDeck] 0 of (a, h', k') \<Rightarrow>
            mset (h' ! a) = mset makeDeck \<and> distinct (h' ! a) \<and> length (h' ! a) = 52
            \<and> h' ! 0 = makeDeck)"
proof -
  have m: "mset (swap_loop rnd (length xs - 1) k xs) = mset xs" for xs :: "'b list"
    using swap_loop_mset [OF assms(1), of "length xs - 1" xs k] by (cases xs) auto
  have 1: "case shuffle rnd k h arr of (a, h', k') \<Rightarrow>
      mset (h' ! a) = mset (h ! arr) \<and> (\<forall>b < length h. h' ! b = h ! b) \<and> a \<noteq> arr"
    using assms(2) m [of "h ! arr"] by (simp add: shuffle_result nth_append)
  let ?d = "swap_loop rnd (length makeDeck - 1) k makeDeck"
  have md: "mset ?d = mset makeDeck" by (rule m)
  then have "distinct ?d" using makeDeck_distinct by (metis mset_eq_imp_distinct_iff)
  moreover have "length ?d = 52" using md makeDeck_length by (metis size_mset)
  ultimately have 2: "case shuffle rnd k [makeDeck] 0 of (a, h', k') \<Rightarrow>
      mset (h' ! a) = mset makeDeck \<and> distinct (h' ! a) \<and> length (h' ! a) = 52 \<and> h' ! 0 = makeDeck"
    using md by (simp add: shuffle_result)
  from 1 2 show ?thesis by blast
qed

theorem shuffle_permutation_witness:
  "random_ok zero_source \<and> (0::nat) < length [[1, 2, 3 :: nat]]
   \<and> shuffle zero_source 0 [[1, 2, 3 :: nat]] 0 = (1, [[1, 2, 3], [2, 3, 1]], 2)"
proof -
  have r: "random_ok zero_source" by (rule zero_source_ok)
  have l: "(0::nat) < length [[1, 2, 3 :: nat]]" by simp
  have e: "shuffle zero_source 0 [[1, 2, 3 :: nat]] 0 = (1, [[1, 2, 3], [2, 3, 1]], 2)"
    by (simp add: shuffle_def alloc_def random_index_def zero_source_def Let_def numeral_2_eq_2)
  from shuffle_permutation [OF r l, of 0] r l e show ?thesis by simp
qed

section \<open>Straight draws\<close>

text \<open>
  Claim C2, which the code breaks. The claim: the open-ended flag of \<^verbatim>\<open>straightDrawType\<close>
  is set exactly when some four-element subset of the distinct rank values (with the low
  ace) has span 3, and the gutshot flag exactly when some such subset has span 4 with one
  value of its range missing. The code rewrites the low ace \<open>-1\<close> to 0, the value of the
  two, before it takes the span. On the ace of spades and 2 of hearts with the flop
  3 of diamonds, 5 of clubs, king of spades, the code sets the open-ended flag and not
  the gutshot flag, although no four of the values \<open>-1, 0, 1, 3, 11, 12\<close> have span 3 (nor
  have four of the values with \<open>-1\<close> written 0), and four of them, \<open>-1, 0, 1, 3\<close>, have
  span 4 with only 2 missing.
\<close>

theorem straightDrawType_low_ace:
  "straightDrawType [mkCard RA Spades, mkCard R2 Hearts]
      [mkCard R3 Diamonds, mkCard R5 Clubs, mkCard RK Spades] = \<lparr>oesd = True, gutshot = False\<rparr>
   \<and> \<not> spec_oesd (wheel_values [mkCard RA Spades, mkCard R2 Hearts, mkCard R3 Diamonds,
        mkCard R5 Clubs, mkCard RK Spades])
   \<and> spec_gutshot (wheel_values [mkCard RA Spades, mkCard R2 Hearts, mkCard R3 Diamonds,
        mkCard R5 Clubs, mkCard RK Spades])
   \<and> \<not> spec_oesd (low_ace_as_zero (wheel_values [mkCard RA Spades, mkCard R2 Hearts,
        mkCard R3 Diamonds, mkCard R5 Clubs, mkCard RK Spades]))"
proof -
  have c: "straightDrawType [mkCard RA Spades, mkCard R2 Hearts]
      [mkCard R3 Diamonds, mkCard R5 Clubs, mkCard RK Spades] = \<lparr>oesd = True, gutshot = False\<rparr>"
    by code_simp
  have z: "low_ace_as_zero {-1, 0, 1, 3, 11, 12} = {0, 1, 3, 11, 12}"
    by (auto simp: low_ace_as_zero_def)
  show ?thesis
    unfolding low_ace_hand_values z using c no_run_of_four gutshot_of_low_ace by blast
qed

section \<open>The stored pot odds\<close>

text \<open>
  Claim C8, as the code has it. For every mode and every spot that \<^verbatim>\<open>genSpot\<close> produces
  (from random draws in range), the stored \<^verbatim>\<open>solution.potOddsPct\<close> is the pot odds of the
  spot's own pot and bet rounded to one decimal (ten times the value, rounded to the
  nearest integer, over ten): it is within a twentieth of the pot odds, and it is 0
  when the bet to call is 0.
\<close>

theorem genSpot_potOdds_rounded:
  assumes "random_ok rnd"
  shows "solution_potOddsPct (solution (genSpot mode rnd)) =
      Num (of_int \<lfloor>spec_potOdds (pot (genSpot mode rnd)) (betToCall (genSpot mode rnd)) * 10
        + 1 / 2\<rfloor> / 10)
    \<and> (\<exists>x. solution_potOddsPct (solution (genSpot mode rnd)) = Num x
          \<and> \<bar>x - spec_potOdds (pot (genSpot mode rnd)) (betToCall (genSpot mode rnd))\<bar> \<le> 1 / 20)
    \<and> (betToCall (genSpot mode rnd) = 0 \<longrightarrow>
          solution_potOddsPct (solution (genSpot mode rnd)) = Num 0)"
proof -
  have 1: "solution_potOddsPct (solution (genSpot mode rnd)) =
      Num (of_int \<lfloor>spec_potOdds (pot (genSpot mode rnd)) (betToCall (genSpot mode rnd)) * 10
        + 1 / 2\<rfloor> / 10)"
    by (rule genSpot_stored [OF assms])
  have 2: "\<exists>x. solution_potOddsPct (solution (genSpot mode rnd)) = Num x
          \<and> \<bar>x - spec_potOdds (pot (genSpot mode rnd)) (betToCall (genSpot mode rnd))\<bar> \<le> 1 / 20"
    unfolding 1 using round_tenth_close by blast
  have 3: "betToCall (genSpot mode rnd) = 0 \<longrightarrow>
      solution_potOddsPct (solution (genSpot mode rnd)) = Num 0"
    unfolding 1 by (simp add: spec_potOdds_def)
  from 1 2 3 show ?thesis by blast
qed

theorem genSpot_potOdds_rounded_witness:
  "random_ok zero_source
   \<and> solution_potOddsPct (solution (genSpot DECISION zero_source)) = Num 20"
  using genSpot_potOdds_rounded [OF zero_source_ok, of DECISION] zero_source_ok
  by (simp add: zero_spot spec_potOdds_def)

text \<open>
  Claim C8 as stated fails: with the pot 40 and the bet 15 the pot odds are 300/11
  (27.27...) and the stored value is 27.3.
\<close>

theorem genSpot_potOdds_not_exact:
  "solution_potOddsPct (solution (genSpot DECISION example_source)) = Num (273 / 10)
   \<and> spec_potOdds (pot (genSpot DECISION example_source))
        (betToCall (genSpot DECISION example_source)) = 300 / 11
   \<and> solution_potOddsPct (solution (genSpot DECISION example_source)) \<noteq>
      Num (spec_potOdds (pot (genSpot DECISION example_source))
        (betToCall (genSpot DECISION example_source)))"
  by (simp add: genSpot_potOddsPct example_spot spec_potOdds_def potOddsPct_def js_div_def)

text \<open>
  Claim C10. \<^verbatim>\<open>potOddsPct\<close> divides with no guard of its own (of pot 0 and call 0 it is
  NaN); in \<^verbatim>\<open>genSpot\<close> the division is evaluated only for a bet to call that is not 0,
  which is then positive and makes pot plus bet positive, and the stored
  \<^verbatim>\<open>solution.potOddsPct\<close> is always a finite number, never NaN, also in the modes where
  pot and bet are both 0.
\<close>

theorem genSpot_potOdds_finite:
  assumes "random_ok rnd"
  shows "potOddsPct 0 0 = NaN
    \<and> (betToCall (genSpot mode rnd) \<noteq> 0 \<longrightarrow>
         0 < betToCall (genSpot mode rnd)
         \<and> 0 < pot (genSpot mode rnd) + betToCall (genSpot mode rnd))
    \<and> (mode \<noteq> DECISION \<longrightarrow>
         potOddsPct (pot (genSpot mode rnd)) (betToCall (genSpot mode rnd)) = NaN)
    \<and> (\<exists>r. solution_potOddsPct (solution (genSpot mode rnd)) = Num r)
    \<and> solution_potOddsPct (solution (genSpot mode rnd)) \<noteq> NaN"
proof -
  let ?p = "pot (genSpot mode rnd)" and ?b = "betToCall (genSpot mode rnd)"
  have nn: "0 \<le> ?p" "0 \<le> ?b" using genSpot_nonneg [OF assms] by auto
  have 1: "potOddsPct 0 0 = NaN" by (simp add: potOddsPct_def js_div_def)
  have 2: "?b \<noteq> 0 \<longrightarrow> 0 < ?b \<and> 0 < ?p + ?b" using nn by auto
  have 3: "mode \<noteq> DECISION \<longrightarrow> potOddsPct ?p ?b = NaN"
    using genSpot_amounts [OF assms, of mode] 1 by auto
  have 4: "\<exists>r. solution_potOddsPct (solution (genSpot mode rnd)) = Num r"
    using genSpot_stored [OF assms, of mode] by blast
  then have 5: "solution_potOddsPct (solution (genSpot mode rnd)) \<noteq> NaN" by auto
  from 1 2 3 4 5 show ?thesis by blast
qed

theorem genSpot_potOdds_finite_witness:
  "random_ok example_source
   \<and> betToCall (genSpot DECISION example_source) = 15
   \<and> 0 < pot (genSpot DECISION example_source) + betToCall (genSpot DECISION example_source)
   \<and> solution_potOddsPct (solution (genSpot DECISION example_source)) \<noteq> NaN
   \<and> solution_potOddsPct (solution (genSpot HAND example_source)) \<noteq> NaN"
  using genSpot_potOdds_finite [OF example_source_ok, of DECISION]
        genSpot_potOdds_finite [OF example_source_ok, of HAND] example_source_ok
  by (simp add: example_spot)

section \<open>The decision rules\<close>

text \<open>
  Claim C5. For every best-hand label, every number of outs and every required
  percentage, \<^verbatim>\<open>recommendDecision\<close> applies the first rule that matches: Raise for one of the
  seven strong made hands; else Raise for 15 outs or more; else Call when
  \<open>min(100, outs * 4) + 2\<close> is at least the required percentage; else Fold. For a
  required percentage that is not finite the comparison is JavaScript's: it holds
  against minus infinity only. In particular High Card with 4 outs at 50 percent folds.
\<close>

theorem recommendDecision_rules:
  "recommendDecision l n (Num r) =
     (if l = ''Two Pair'' \<or> l = ''Three of a Kind'' \<or> l = ''Straight'' \<or> l = ''Flush''
         \<or> l = ''Full House'' \<or> l = ''Four of a Kind'' \<or> l = ''Straight Flush''
      then Raise
      else if n \<ge> 15 then Raise
      else if real_of_int (min 100 (n * 4)) + 2 \<ge> r then Call
      else Fold)
   \<and> recommendDecision l n NegInfinity =
     (if l \<in> set strongMade \<or> n \<ge> 15 then Raise else Call)
   \<and> recommendDecision l n PosInfinity =
     (if l \<in> set strongMade \<or> n \<ge> 15 then Raise else Fold)
   \<and> recommendDecision l n NaN =
     (if l \<in> set strongMade \<or> n \<ge> 15 then Raise else Fold)
   \<and> recommendDecision ''High Card'' 4 (Num 50) = Fold"
  by (simp add: recommendDecision_def strongMade_def approxEquityFromOuts_def Let_def)

theorem recommendDecision_rules_witness:
  "recommendDecision ''One Pair'' 9 (Num 25) = Call
   \<and> recommendDecision ''One Pair'' 15 (Num 25) = Raise
   \<and> recommendDecision ''Flush'' 0 (Num 90) = Raise
   \<and> recommendDecision ''High Card'' 4 (Num 50) = Fold"
  using recommendDecision_rules [of "''One Pair''" 9 25]
        recommendDecision_rules [of "''One Pair''" 15 25]
        recommendDecision_rules [of "''Flush''" 0 90]
        recommendDecision_rules [of "''High Card''" 4 50]
  by simp

end
